theory Spec2Isabelle
  imports Complex_Main
begin

section \<open>Common types\<close>

text \<open>
  A volume root is a \<^verbatim>\<open>pathlib.Path\<close>; it is represented by its normalised string, so
  that HOL equality is Python's \<^verbatim>\<open>==\<close> on paths.  Exceptions are values; a call either
  returns, raises, or never comes back because a modal dialog waits for an answer that
  is not given.
\<close>

type_synonym drive = string

datatype exn =
    OSError
  | NotADirectoryError
  | FileNotFoundError
  | DirectoryNotEmpty
  | ValueError
  | TypeError
  | RecursionError
  | Exception string

datatype outcome = Returned | Raised exn | Blocked

datatype event =
    Initial_drives "drive list"
  | New_drive drive
  | Executing_callback drive
  | Drive_removed drive
  | Stopped_scanning
  | Sleep real

section \<open>fmount.py\<close>

text \<open>
  What the operating system answers during one enumeration: \<^verbatim>\<open>os.listdrives()\<close> gives
  the listed drives or raises, and \<^verbatim>\<open>Path(drive).is_dir()\<close> gives a truth value or
  raises.
\<close>

record os_state =
  listdrives :: "exn + drive list"
  is_dir :: "drive \<Rightarrow> exn + bool"

record fmount =
  drives :: "drive list"
  run :: bool
  log :: "event list"

text \<open>
  \<^verbatim>\<open>find_drives\<close> is a generator.  What its consumer sees is the finite sequence of
  yielded drives, followed either by exhaustion (\<open>None\<close>) or by an exception.
\<close>

fun yield_dirs :: "(drive \<Rightarrow> exn + bool) \<Rightarrow> drive list \<Rightarrow> drive list \<times> exn option" where
  "yield_dirs chk [] = ([], None)"
| "yield_dirs chk (d # ds) =
     (case chk d of
        Inl e \<Rightarrow> ([], Some e)
      | Inr True \<Rightarrow> (case yield_dirs chk ds of (ys, x) \<Rightarrow> (d # ys, x))
      | Inr False \<Rightarrow> yield_dirs chk ds)"

definition find_drives :: "os_state \<Rightarrow> drive list \<times> exn option" where
  "find_drives os =
     (case listdrives os of
        Inl e \<Rightarrow> ([], Some e)
      | Inr ds \<Rightarrow> yield_dirs (is_dir os) ds)"

text \<open>\<^verbatim>\<open>Fmount.__init__\<close>: the constructor raises when the enumeration does.\<close>

definition init :: "os_state \<Rightarrow> exn + fmount" where
  "init os =
     (case find_drives os of
        (ys, Some e) \<Rightarrow> Inl e
      | (ys, None) \<Rightarrow> Inr \<lparr>drives = ys, run = True, log = [Initial_drives ys]\<rparr>)"

text \<open>
  The callback works on a state of its own (\<open>'s\<close>): neither callback of the repository
  touches the tracker's list.  \<open>None\<close> is \<^verbatim>\<open>callback=None\<close>.

  First loop of \<^verbatim>\<open>detect_new_drives\<close>, over the drives the generator yields; the
  third argument is the local list \<^verbatim>\<open>_drives\<close>.  A callback that does not return ends
  the loop there, with the drive already appended.
\<close>

type_synonym 's callback = "drive \<Rightarrow> 's \<Rightarrow> outcome \<times> 's"

fun add_drives ::
  "'s callback option \<Rightarrow> drive list \<Rightarrow> drive list \<Rightarrow> fmount \<times> 's
     \<Rightarrow> outcome \<times> drive list \<times> fmount \<times> 's" where
  "add_drives cb [] seen (fm, s) = (Returned, seen, fm, s)"
| "add_drives cb (d # ds) seen (fm, s) =
     (if d \<notin> set (drives fm) then
        (let fm1 = fm\<lparr>drives := drives fm @ [d], log := log fm @ [New_drive d]\<rparr> in
         case cb of
           None \<Rightarrow> add_drives cb ds (seen @ [d]) (fm1, s)
         | Some f \<Rightarrow>
             (let fm2 = fm1\<lparr>log := log fm1 @ [Executing_callback d]\<rparr> in
              case f d s of
                (Returned, s') \<Rightarrow> add_drives cb ds (seen @ [d]) (fm2, s')
              | (out, s') \<Rightarrow> (out, seen, fm2, s')))
      else add_drives cb ds (seen @ [d]) (fm, s))"

text \<open>
  Second loop: \<^verbatim>\<open>for drive in self.drives\<close> while the body calls
  \<^verbatim>\<open>self.drives.remove(drive)\<close>.  Python's list iterator keeps an index \<open>i\<close> into the
  list being mutated and stops when \<open>i\<close> reaches its current length.
\<close>

function remove_drives :: "nat \<Rightarrow> drive list \<Rightarrow> fmount \<Rightarrow> fmount" where
  "remove_drives i seen fm =
     (if i < length (drives fm) then
        (let d = drives fm ! i in
         if d \<notin> set seen then
           remove_drives (i + 1) seen
             (fm\<lparr>drives := remove1 d (drives fm), log := log fm @ [Drive_removed d]\<rparr>)
         else remove_drives (i + 1) seen fm)
      else fm)"
  by pat_completeness auto
termination
  by (relation "measure (\<lambda>(i, seen, fm). length (drives fm) - i)")
     (auto simp: length_remove1)

declare remove_drives.simps [simp del]

definition detect_new_drives ::
  "'s callback option \<Rightarrow> os_state \<Rightarrow> fmount \<times> 's \<Rightarrow> outcome \<times> fmount \<times> 's" where
  "detect_new_drives cb os st =
     (case find_drives os of
        (ys, err) \<Rightarrow>
          (case add_drives cb ys [] st of
             (Returned, seen, fm1, s1) \<Rightarrow>
               (case err of
                  Some e \<Rightarrow> (Raised e, fm1, s1)
                | None \<Rightarrow> (Returned, remove_drives 0 seen fm1, s1))
           | (out, seen, fm1, s1) \<Rightarrow> (out, fm1, s1)))"

text \<open>
  \<^verbatim>\<open>scan\<close> polls until \<^verbatim>\<open>self.run\<close> is false.  The flag is cleared by \<^verbatim>\<open>stop\<close> from the
  tray-icon thread, so each tick of the loop says whether \<^verbatim>\<open>stop\<close> was called before the
  loop test, and what the operating system answers in that tick.  The result \<open>None\<close>
  means that the loop is still polling after the given ticks.
\<close>

definition stop :: "fmount \<Rightarrow> fmount" where
  "stop fm = fm\<lparr>run := False\<rparr>"

record tick =
  stop_called :: bool
  tick_os :: os_state

fun scan ::
  "'s callback option \<Rightarrow> real \<Rightarrow> tick list \<Rightarrow> fmount \<times> 's
     \<Rightarrow> outcome option \<times> fmount \<times> 's" where
  "scan cb delay [] st = (None, st)"
| "scan cb delay (t # ts) (fm, s) =
     (let fm0 = (if stop_called t then stop fm else fm) in
      if run fm0 then
        (case detect_new_drives cb (tick_os t) (fm0, s) of
           (Returned, fm1, s1) \<Rightarrow> scan cb delay ts (fm1\<lparr>log := log fm1 @ [Sleep delay]\<rparr>, s1)
         | (out, fm1, s1) \<Rightarrow> (Some out, fm1, s1))
      else (Some Returned, fm0\<lparr>log := log fm0 @ [Stopped_scanning]\<rparr>, s))"

subsection \<open>Notions used to state the tracker's properties\<close>

text \<open>
  A callback that returns normally at every drive and in every state; the set of drives a
  poll reports as new; the log lines written for one of them; and the effect of calling
  the callback once on each drive of a list, in order.
\<close>

definition returns :: "'s callback option \<Rightarrow> bool" where
  "returns cb = (case cb of None \<Rightarrow> True | Some f \<Rightarrow> \<forall>d s. fst (f d s) = Returned)"

definition new_drives :: "fmount \<Rightarrow> drive list \<Rightarrow> drive list" where
  "new_drives fm ys = filter (\<lambda>d. d \<notin> set (drives fm)) ys"

definition announce :: "'s callback option \<Rightarrow> drive \<Rightarrow> event list" where
  "announce cb d =
     (case cb of None \<Rightarrow> [New_drive d] | Some f \<Rightarrow> [New_drive d, Executing_callback d])"

definition run_callbacks :: "'s callback option \<Rightarrow> drive list \<Rightarrow> 's \<Rightarrow> 's" where
  "run_callbacks cb ds s =
     (case cb of None \<Rightarrow> s | Some f \<Rightarrow> fold (\<lambda>d s. snd (f d s)) ds s)"

section \<open>fusb_mass_storage_sync.py\<close>

subsection \<open>The directory tree that \<^verbatim>\<open>del_tree\<close> empties\<close>

text \<open>
  A directory entry is a regular file, a directory with its named children in the order
  \<^verbatim>\<open>iterdir()\<close> lists them, or something else (a socket, a FIFO, a dangling link), for
  which \<^verbatim>\<open>is_file()\<close> is false and \<^verbatim>\<open>iterdir()\<close> raises.
\<close>

datatype node = File | Special | Dir "(string \<times> node) list"

fun is_file :: "node \<Rightarrow> bool" where
  "is_file File = True"
| "is_file Special = False"
| "is_file (Dir cs) = False"

text \<open>
  \<^verbatim>\<open>del_tree p level\<close> returns the number of files it removed, or the exception that
  ended it, together with what is left at \<open>p\<close> (\<open>None\<close> when \<open>p\<close> itself was removed
  by \<^verbatim>\<open>rmdir\<close>, which raises on a directory that is not empty).  \<open>del_children\<close> is the
  loop over \<^verbatim>\<open>p.iterdir()\<close>: its arguments are the children not yet visited, the level
  and \<^verbatim>\<open>nb_files\<close>; it returns the children that remain in the directory.  Removing a
  regular file with \<^verbatim>\<open>unlink\<close> is taken to succeed.
\<close>

fun del_tree :: "node \<Rightarrow> int \<Rightarrow> (exn + int) \<times> node option"
  and del_children ::
    "(string \<times> node) list \<Rightarrow> int \<Rightarrow> int \<Rightarrow> (exn + int) \<times> (string \<times> node) list" where
  "del_tree File level = (Inl NotADirectoryError, Some File)"
| "del_tree Special level = (Inl NotADirectoryError, Some Special)"
| "del_tree (Dir cs) level =
     (case del_children cs level 0 of
        (Inl e, rest) \<Rightarrow> (Inl e, Some (Dir rest))
      | (Inr nb_files, rest) \<Rightarrow>
          if level > 0 then
            (if rest = [] then (Inr nb_files, None)
             else (Inl DirectoryNotEmpty, Some (Dir rest)))
          else (Inr nb_files, Some (Dir rest)))"
| "del_children [] level nb_files = (Inr nb_files, [])"
| "del_children ((name, child) # cs) level nb_files =
     (if is_file child then del_children cs level (nb_files + 1)
      else
        (case del_tree child (level + 1) of
           (Inl e, left) \<Rightarrow>
             (Inl e, (case left of None \<Rightarrow> cs | Some c \<Rightarrow> (name, c) # cs))
         | (Inr k, left) \<Rightarrow>
             (case del_children cs level (nb_files + k) of
                (r, rest) \<Rightarrow>
                  (r, (case left of None \<Rightarrow> rest | Some c \<Rightarrow> (name, c) # rest)))))"

subsection \<open>Configuration\<close>

text \<open>
  The \<^verbatim>\<open>ConfigParser\<close> object is a map from section names to sections, a section a map
  from option names to strings (the \<^verbatim>\<open>DEFAULT\<close> section is not used by the program and
  is left out, and a stored value is read back as it is).  The INI file holds such a
  map, or does not exist.  The state of the application also holds the trace of its
  visible effects, the part of the file system it looks at (the tree found at a path),
  and the answers the user will give to the next folder prompts and to the next
  confirmation prompts; a prompt with no answer left waits for ever.
\<close>

type_synonym config = "string \<rightharpoonup> (string \<rightharpoonup> string)"

datatype effect =
    Ini_written
  | Slept real
  | Folder_prompt "string option"
  | Error_popup
  | Sync_called string string
  | Confirm_prompt nat
  | Deleted_popup int

record app =
  config :: config
  ini_file :: "config option"
  trace :: "effect list"
  fs :: "string \<rightharpoonup> node"
  folder_answers :: "string option list"
  confirm_answers :: "string option list"

text \<open>
  What the program takes from outside the repository: Python's \<^verbatim>\<open>float()\<close> on a string
  (\<open>None\<close> when it raises \<^verbatim>\<open>ValueError\<close>), the join of a path with a name,
  \<^verbatim>\<open>dirsync.sync\<close>, which returns the list of what it copied and changes the file system,
  or raises, and the interpreter's bound on nested calls: \<open>max_nesting\<close> is the number of
  times \<^verbatim>\<open>ui_sync_drive\<close> can call itself, one call inside the other, before the
  recursion limit (\<^verbatim>\<open>sys.getrecursionlimit()\<close>, 1000 unless changed) is reached.
\<close>

record env =
  py_float :: "string \<Rightarrow> real option"
  joinpath :: "string \<Rightarrow> string \<Rightarrow> string"
  dirsync :: "string \<Rightarrow> string \<Rightarrow> (string \<rightharpoonup> node) \<Rightarrow> exn + string list \<times> (string \<rightharpoonup> node)"
  max_nesting :: nat

definition default_sync_interval :: real where
  "default_sync_interval = 1"

text \<open>\<^verbatim>\<open>str(default_sync_interval)\<close>, that is \<^verbatim>\<open>str(1.0)\<close>.\<close>

definition default_sync_interval_str :: string where
  "default_sync_interval_str = ''1.0''"

definition default_icon_path :: string where
  "default_icon_path = ''icon.png''"

definition sleep_before_sync :: real where
  "sleep_before_sync = 2"

definition defaut_remote_path :: string where
  "defaut_remote_path = ''DCIM''"

definition read_ini :: "config option \<Rightarrow> config" where
  "read_ini file =
     (case file of
        Some c \<Rightarrow> (case c ''Settings'' of None \<Rightarrow> c(''Settings'' \<mapsto> Map.empty) | Some s \<Rightarrow> c)
      | None \<Rightarrow> Map.empty)"

text \<open>\<^verbatim>\<open>self.config.get('Settings', key, fallback=None)\<close>\<close>

definition config_get :: "config \<Rightarrow> string \<Rightarrow> string option" where
  "config_get c key = (case c ''Settings'' of None \<Rightarrow> None | Some s \<Rightarrow> s key)"

definition write_ini :: "app \<Rightarrow> app" where
  "write_ini st = st\<lparr>ini_file := Some (config st), trace := trace st @ [Ini_written]\<rparr>"

text \<open>
  \<^verbatim>\<open>ConfigParser.set\<close> checks the value before it stores it (\<^verbatim>\<open>before_set\<close> of the
  default \<^verbatim>\<open>BasicInterpolation\<close>): it takes out every \<^verbatim>\<open>%%\<close>, from left to right, then
  every match of the pattern \<^verbatim>\<open>%\(([^)]+)\)s\<close>, and raises \<^verbatim>\<open>ValueError\<close> when a
  \<^verbatim>\<open>%\<close> is left.
\<close>

fun drop_escaped_percents :: "string \<Rightarrow> string" where
  "drop_escaped_percents (c # d # cs) =
     (if c = CHR ''%'' \<and> d = CHR ''%'' then drop_escaped_percents cs
      else c # drop_escaped_percents (d # cs))"
| "drop_escaped_percents cs = cs"

function drop_key_references :: "string \<Rightarrow> string" where
  "drop_key_references [] = []"
| "drop_key_references (c # cs) =
     (if c = CHR ''%'' \<and> take 1 cs = ''(''
         \<and> takeWhile (\<lambda>x. x \<noteq> CHR '')'') (tl cs) \<noteq> []
         \<and> take 2 (dropWhile (\<lambda>x. x \<noteq> CHR '')'') (tl cs)) = '')s''
      then drop_key_references (drop 2 (dropWhile (\<lambda>x. x \<noteq> CHR '')'') (tl cs)))
      else c # drop_key_references cs)"
  by pat_completeness auto
termination
proof (relation "measure length")
  show "wf (measure length)" by simp
next
  fix c :: char and cs :: string
  have "length (dropWhile (\<lambda>x. x \<noteq> CHR '')'') (tl cs)) \<le> length (tl cs)"
    by (rule length_dropWhile_le)
  then show "(drop 2 (dropWhile (\<lambda>x. x \<noteq> CHR '')'') (tl cs)), c # cs) \<in> measure length"
    by simp
next
  fix c :: char and cs :: string
  show "(cs, c # cs) \<in> measure length" by simp
qed

declare drop_key_references.simps [simp del]

definition interpolation_syntax_ok :: "string \<Rightarrow> bool" where
  "interpolation_syntax_ok v =
     (CHR ''%'' \<notin> set (drop_key_references (drop_escaped_percents v)))"

text \<open>
  The second argument of \<open>set_settings\<close> is \<^verbatim>\<open>str(value)\<close>.  When \<^verbatim>\<open>config.set\<close> raises,
  the section has been added already and nothing is written.
\<close>

definition set_settings :: "string \<Rightarrow> string \<Rightarrow> app \<Rightarrow> outcome \<times> app" where
  "set_settings key v st =
     (let c = (case config st ''Settings'' of
                 None \<Rightarrow> (config st)(''Settings'' \<mapsto> Map.empty)
               | Some s \<Rightarrow> config st);
          s = (case c ''Settings'' of None \<Rightarrow> Map.empty | Some s \<Rightarrow> s)
      in if interpolation_syntax_ok v
         then (Returned, write_ini (st\<lparr>config := c(''Settings'' \<mapsto> s(key \<mapsto> v))\<rparr>))
         else (Raised ValueError, st\<lparr>config := c\<rparr>))"

definition local_folder :: "app \<Rightarrow> string option" where
  "local_folder st = config_get (config st) ''local_folder''"

text \<open>
  The getters with a default: the value read, or the exception of \<open>set_settings\<close>.
\<close>

definition remote_path :: "app \<Rightarrow> (exn + string) \<times> app" where
  "remote_path st =
     (case config_get (config st) ''remote_path'' of
        None \<Rightarrow>
          (case set_settings ''remote_path'' defaut_remote_path st of
             (Raised e, st') \<Rightarrow> (Inl e, st')
           | (out, st') \<Rightarrow> (Inr defaut_remote_path, st'))
      | Some v \<Rightarrow> (Inr v, st))"

definition icon_path :: "app \<Rightarrow> (exn + string) \<times> app" where
  "icon_path st =
     (case config_get (config st) ''icon_path'' of
        None \<Rightarrow>
          (case set_settings ''icon_path'' default_icon_path st of
             (Raised e, st') \<Rightarrow> (Inl e, st')
           | (out, st') \<Rightarrow> (Inr default_icon_path, st'))
      | Some v \<Rightarrow> (Inr v, st))"

definition sync_interval :: "env \<Rightarrow> app \<Rightarrow> (exn + real) \<times> app" where
  "sync_interval env st =
     (case config_get (config st) ''sync_interval'' of
        None \<Rightarrow>
          (case set_settings ''sync_interval'' default_sync_interval_str st of
             (Raised e, st') \<Rightarrow> (Inl e, st')
           | (out, st') \<Rightarrow> (Inr default_sync_interval, st'))
      | Some v \<Rightarrow>
          (case py_float env v of None \<Rightarrow> (Inl ValueError, st) | Some x \<Rightarrow> (Inr x, st)))"

subsection \<open>The handler of a new drive\<close>

definition path_is_dir :: "(string \<rightharpoonup> node) \<Rightarrow> string \<Rightarrow> bool" where
  "path_is_dir f p = (case f p of Some (Dir cs) \<Rightarrow> True | _ \<Rightarrow> False)"

definition path_exists :: "(string \<rightharpoonup> node) \<Rightarrow> string \<Rightarrow> bool" where
  "path_exists f p = (case f p of Some n \<Rightarrow> True | None \<Rightarrow> False)"

definition sync_drive :: "env \<Rightarrow> drive \<Rightarrow> app \<Rightarrow> outcome \<times> app" where
  "sync_drive env drive st =
     (case remote_path st of
        (Inl e, st1) \<Rightarrow> (Raised e, st1)
      | (Inr rp, st1) \<Rightarrow>
          (let source = joinpath env drive rp in
           case local_folder st1 of
             None \<Rightarrow> (Raised TypeError, st1)
           | Some target \<Rightarrow>
               (let st2 = st1\<lparr>trace := trace st1 @ [Sync_called source target]\<rparr> in
                case dirsync env source target (fs st2) of
                  Inl e \<Rightarrow> (Raised e, st2)
                | Inr (result, fs') \<Rightarrow>
                    (let st3 = st2\<lparr>fs := fs',
                                  trace := trace st2 @ [Confirm_prompt (length result)]\<rparr> in
                     case confirm_answers st3 of
                       [] \<Rightarrow> (Blocked, st3)
                     | reponse # rest \<Rightarrow>
                         (let st4 = st3\<lparr>confirm_answers := rest\<rparr> in
                          if reponse = Some ''OK'' then
                            (case fs st4 source of
                               None \<Rightarrow> (Raised FileNotFoundError, st4)
                             | Some n \<Rightarrow>
                                 (case del_tree n 0 of
                                    (Inl e, left) \<Rightarrow>
                                      (Raised e, st4\<lparr>fs := (fs st4)(source := left)\<rparr>)
                                  | (Inr nb_files, left) \<Rightarrow>
                                      (Returned,
                                       st4\<lparr>fs := (fs st4)(source := left),
                                           trace := trace st4 @ [Deleted_popup nb_files]\<rparr>)))
                          else (Returned, st4))))))"

text \<open>
  \<^verbatim>\<open>ui_sync_drive\<close> calls itself after an invalid choice; every call takes one answer
  from the user, so the recursion goes along the answers.  The fourth argument is the
  number of calls of \<^verbatim>\<open>ui_sync_drive\<close> that are already open around this one (none when
  the tracker calls it).  After \<open>max_nesting\<close> nested calls the interpreter refuses the
  next one with \<^verbatim>\<open>RecursionError\<close>; the model raises it at the self-call, after the error
  popup.
\<close>

function ui_sync_drive ::
  "env \<Rightarrow> drive \<Rightarrow> real option \<Rightarrow> nat \<Rightarrow> app \<Rightarrow> outcome \<times> app" where
  "ui_sync_drive env drive delay depth st =
     (let st1 = st\<lparr>trace := trace st @
                  [Slept (case delay of Some d \<Rightarrow> d | None \<Rightarrow> sleep_before_sync),
                   Folder_prompt (local_folder st)]\<rparr> in
      case folder_answers st1 of
        [] \<Rightarrow> (Blocked, st1)
      | filename # rest \<Rightarrow>
          (let st2 = st1\<lparr>folder_answers := rest\<rparr> in
           case filename of
             None \<Rightarrow> (Returned, st2)
           | Some name \<Rightarrow>
               if name = [] then (Returned, st2)
               else if path_is_dir (fs st2) name \<and> path_exists (fs st2) name then
                 (if filename \<noteq> local_folder st2 then
                    (case set_settings ''local_folder'' name st2 of
                       (Returned, st3) \<Rightarrow> sync_drive env drive st3
                     | (out, st3) \<Rightarrow> (out, st3))
                  else sync_drive env drive st2)
               else
                 (let st3 = st2\<lparr>trace := trace st2 @ [Error_popup]\<rparr> in
                  if max_nesting env \<le> depth then (Raised RecursionError, st3)
                  else ui_sync_drive env drive (Some 0) (depth + 1) st3)))"
  by pat_completeness auto
termination
  by (relation "measure (\<lambda>(env, drive, delay, depth, st). length (folder_answers st))") auto

declare ui_sync_drive.simps [simp del]

text \<open>\<^verbatim>\<open>scan_drives\<close>: the tracker polls with \<^verbatim>\<open>ui_sync_drive\<close> as its callback.\<close>

definition scan_drives ::
  "env \<Rightarrow> tick list \<Rightarrow> fmount \<times> app \<Rightarrow> outcome option \<times> fmount \<times> app" where
  "scan_drives env ticks st =
     (case st of
        (fm, a) \<Rightarrow>
          (case sync_interval env a of
             (Inl e, a1) \<Rightarrow> (Some (Raised e), fm, a1)
           | (Inr delay, a1) \<Rightarrow>
               scan (Some (\<lambda>d. ui_sync_drive env d None 0)) delay ticks (fm, a1)))"

subsection \<open>Notions used to state the properties of the application\<close>




definition settle :: "real option \<Rightarrow> real" where
  "settle delay = (case delay of Some d \<Rightarrow> d | None \<Rightarrow> sleep_before_sync)"


text \<open>
  An environment and a freshly started application (no INI file, one directory and one
  file on disk), for the examples.
\<close>

definition example_env :: env where
  "example_env =
     \<lparr>py_float = (\<lambda>s. if s = ''1.0'' then Some 1 else None),
      joinpath = (\<lambda>p n. p @ ''/'' @ n),
      dirsync = (\<lambda>src tgt f. Inr ([], f)),
      max_nesting = 987\<rparr>"

definition fresh_app :: app where
  "fresh_app =
     \<lparr>config = read_ini None, ini_file = None, trace = [],
      fs = [''C:/photos'' \<mapsto> Dir [], ''C:/notes.txt'' \<mapsto> File],
      folder_answers = [], confirm_answers = []\<rparr>"

section \<open>Properties of the tracker\<close>

lemma yield_dirs_subseq: "set (fst (yield_dirs chk ds)) \<subseteq> set ds"
  by (induction ds) (auto split: sum.splits bool.splits prod.splits)

lemma yield_dirs_distinct: "distinct ds \<Longrightarrow> distinct (fst (yield_dirs chk ds))"
proof (induction ds)
  case Nil
  then show ?case by simp
next
  case (Cons d ds)
  have "d \<notin> set (fst (yield_dirs chk ds))"
    using Cons.prems yield_dirs_subseq [of chk ds] by auto
  with Cons show ?case
    by (auto split: sum.splits bool.splits prod.splits)
qed

lemma find_drives_distinct:
  "listdrives os = Inr ds \<Longrightarrow> distinct ds \<Longrightarrow> distinct (fst (find_drives os))"
  by (simp add: find_drives_def yield_dirs_distinct)

lemma add_drives_distinct:
  "add_drives cb ds seen (fm, s) = (out, seen', fm', s') \<Longrightarrow> distinct (drives fm)
     \<Longrightarrow> distinct (drives fm')"
proof (induction ds arbitrary: seen fm s)
  case Nil
  then show ?case by simp
next
  case (Cons d ds)
  then show ?case
    by (auto simp: Let_def split: if_splits option.splits prod.splits outcome.splits)
qed

lemma add_drives_run:
  "add_drives cb ds seen (fm, s) = (out, seen', fm', s') \<Longrightarrow> run fm' = run fm"
proof (induction ds arbitrary: seen fm s)
  case Nil
  then show ?case by simp
next
  case (Cons d ds)
  then show ?case
    by (fastforce simp: Let_def split: if_splits option.splits prod.splits outcome.splits)
qed

lemma add_drives_mono:
  "add_drives cb ds seen (fm, s) = (out, seen', fm', s') \<Longrightarrow> set (drives fm) \<subseteq> set (drives fm')"
proof (induction ds arbitrary: seen fm s)
  case Nil
  then show ?case by simp
next
  case (Cons d ds)
  then show ?case
    by (fastforce simp: Let_def split: if_splits option.splits prod.splits outcome.splits)
qed

lemma add_drives_returns:
  assumes "returns cb" and "distinct ds"
  shows "add_drives cb ds seen (fm, s) =
     (Returned, seen @ ds,
      fm\<lparr>drives := drives fm @ filter (\<lambda>d. d \<notin> set (drives fm)) ds,
         log := log fm @ concat (map (announce cb) (filter (\<lambda>d. d \<notin> set (drives fm)) ds))\<rparr>,
      run_callbacks cb (filter (\<lambda>d. d \<notin> set (drives fm)) ds) s)"
  using assms(2)
proof (induction ds arbitrary: seen fm s)
  case Nil
  then show ?case by (simp add: run_callbacks_def split: option.splits)
next
  case (Cons d ds)
  have dist: "distinct ds" and notin: "d \<notin> set ds" using Cons.prems by auto
  show ?case
  proof (cases "d \<in> set (drives fm)")
    case True
    then show ?thesis using Cons.IH [OF dist] by simp
  next
    case False
    have flt: "filter (\<lambda>x. x \<noteq> d \<and> x \<notin> set (drives fm)) ds = filter (\<lambda>x. x \<notin> set (drives fm)) ds"
      using notin by (intro filter_cong) auto
    show ?thesis
    proof (cases cb)
      case None
      then show ?thesis using False Cons.IH [OF dist] flt
        by (simp add: Let_def announce_def run_callbacks_def)
    next
      case (Some f)
      have "fst (f d s) = Returned"
        using assms(1) Some by (simp add: returns_def)
      then obtain s' where fd: "f d s = (Returned, s')"
        by (cases "f d s") simp
      then show ?thesis using Some False Cons.IH [OF dist] flt
        by (simp add: Let_def announce_def run_callbacks_def)
    qed
  qed
qed

lemma remove_drives_distinct:
  "distinct (drives fm) \<Longrightarrow> distinct (drives (remove_drives i seen fm))"
proof (induction i seen fm rule: remove_drives.induct)
  case (1 i seen fm)
  show ?case
    using "1.IH" "1.prems" by (subst remove_drives.simps) (auto simp: Let_def)
qed

lemma remove_drives_run: "run (remove_drives i seen fm) = run fm"
proof (induction i seen fm rule: remove_drives.induct)
  case (1 i seen fm)
  show ?case
    using "1.IH" by (subst remove_drives.simps) (auto simp: Let_def)
qed

lemma remove_drives_none:
  "\<forall>x \<in> set (drop i (drives fm)). x \<in> set seen \<Longrightarrow> remove_drives i seen fm = fm"
proof (induction i seen fm rule: remove_drives.induct)
  case (1 i seen fm)
  show ?case
  proof (cases "i < length (drives fm)")
    case True
    have dr: "drop i (drives fm) = drives fm ! i # drop (Suc i) (drives fm)"
      using True by (simp add: Cons_nth_drop_Suc)
    have here: "drives fm ! i \<in> set seen"
      using "1.prems" dr by simp
    have rest: "\<forall>x \<in> set (drop (i + 1) (drives fm)). x \<in> set seen"
      using "1.prems" dr by simp
    have "remove_drives (i + 1) seen fm = fm"
      using "1.IH"(2) [OF True refl _ rest] here by simp
    then show ?thesis
      using True here by (subst remove_drives.simps) (simp add: Let_def)
  next
    case False
    then show ?thesis by (subst remove_drives.simps) simp
  qed
qed

lemma remove1_nth_distinct:
  "distinct xs \<Longrightarrow> i < length xs \<Longrightarrow> remove1 (xs ! i) xs = take i xs @ drop (Suc i) xs"
proof (induction xs arbitrary: i)
  case Nil
  then show ?case by simp
next
  case (Cons x xs)
  show ?case
  proof (cases i)
    case 0
    then show ?thesis by simp
  next
    case (Suc j)
    then have "xs ! j \<noteq> x" using Cons.prems by auto
    then show ?thesis using Suc Cons by auto
  qed
qed

lemma remove_drives_one:
  assumes "distinct (drives fm)"
    and "\<forall>x \<in> set (drop i (drives fm)). x \<notin> set seen \<longrightarrow> x = a"
    and "a \<in> set (drop i (drives fm))" and "a \<notin> set seen"
  shows "remove_drives i seen fm =
           fm\<lparr>drives := remove1 a (drives fm), log := log fm @ [Drive_removed a]\<rparr>"
  using assms
proof (induction i seen fm rule: remove_drives.induct)
  case (1 i seen fm)
  have lt: "i < length (drives fm)"
    using "1.prems"(3) by (cases "i < length (drives fm)") auto
  have dr: "drop i (drives fm) = drives fm ! i # drop (Suc i) (drives fm)"
    using lt by (simp add: Cons_nth_drop_Suc)
  show ?case
  proof (cases "drives fm ! i \<in> set seen")
    case True
    then have ne: "drives fm ! i \<noteq> a" using "1.prems"(4) by auto
    have p2: "\<forall>x \<in> set (drop (i + 1) (drives fm)). x \<notin> set seen \<longrightarrow> x = a"
      using "1.prems"(2) dr by simp
    have p3: "a \<in> set (drop (i + 1) (drives fm))"
      using "1.prems"(3) dr ne by auto
    have "remove_drives (i + 1) seen fm =
            fm\<lparr>drives := remove1 a (drives fm), log := log fm @ [Drive_removed a]\<rparr>"
      using "1.IH"(2) [OF lt refl _ "1.prems"(1) p2 p3 "1.prems"(4)] True by simp
    then show ?thesis
      using lt True by (subst remove_drives.simps) (simp add: Let_def)
  next
    case False
    then have eq: "drives fm ! i = a" using "1.prems"(2) dr by auto
    let ?fm' = "fm\<lparr>drives := remove1 a (drives fm), log := log fm @ [Drive_removed a]\<rparr>"
    have rm: "remove1 a (drives fm) = take i (drives fm) @ drop (Suc i) (drives fm)"
      using remove1_nth_distinct [OF "1.prems"(1) lt] eq by simp
    have "drop (i + 1) (drives ?fm') = drop (Suc (Suc i)) (drives fm)"
      using lt by (simp add: rm)
    moreover have "\<forall>x \<in> set (drop (Suc (Suc i)) (drives fm)). x \<in> set seen"
    proof
      fix x assume x: "x \<in> set (drop (Suc (Suc i)) (drives fm))"
      have "drop (Suc (Suc i)) (drives fm) = drop 1 (drop (Suc i) (drives fm))" by simp
      with x have xin: "x \<in> set (drop (Suc i) (drives fm))"
        using in_set_dropD by metis
      have "distinct (drop i (drives fm))" using "1.prems"(1) by simp
      then have "drives fm ! i \<notin> set (drop (Suc i) (drives fm))" using dr by simp
      then have "x \<noteq> a" using xin eq by auto
      moreover have "x \<in> set (drop i (drives fm))" using xin dr by simp
      ultimately show "x \<in> set seen" using "1.prems"(2) by auto
    qed
    ultimately have "\<forall>x \<in> set (drop (i + 1) (drives ?fm')). x \<in> set seen" by simp
    then have "remove_drives (i + 1) seen ?fm' = ?fm'" by (rule remove_drives_none)
    then show ?thesis
      using lt False eq by (subst remove_drives.simps) (simp add: Let_def)
  qed
qed

lemma remove_drives_keeps:
  "x \<in> set (drives fm) \<Longrightarrow> x \<in> set seen \<Longrightarrow> x \<in> set (drives (remove_drives i seen fm))"
proof (induction i seen fm rule: remove_drives.induct)
  case (1 i seen fm)
  show ?case
  proof (cases "i < length (drives fm)")
    case True
    show ?thesis
    proof (cases "drives fm ! i \<in> set seen")
      case in_seen: True
      then show ?thesis
        using True "1.IH"(2) [OF True refl _ "1.prems"] by (subst remove_drives.simps) (simp add: Let_def)
    next
      case False
      then have "x \<noteq> drives fm ! i" using "1.prems"(2) by auto
      then have "x \<in> set (remove1 (drives fm ! i) (drives fm))" using "1.prems"(1) by simp
      then show ?thesis
        using True False "1.IH"(1) [OF True refl False _ "1.prems"(2)]
        by (subst remove_drives.simps) (simp add: Let_def)
    qed
  next
    case False
    then show ?thesis using "1.prems" by (subst remove_drives.simps) simp
  qed
qed

lemma remove_drives_reports:
  "filter (\<lambda>ev. ev = New_drive d \<or> ev = Executing_callback d) (log (remove_drives i seen fm)) =
   filter (\<lambda>ev. ev = New_drive d \<or> ev = Executing_callback d) (log fm)"
proof (induction i seen fm rule: remove_drives.induct)
  case (1 i seen fm)
  show ?case
    using "1.IH" by (subst remove_drives.simps) (auto simp: Let_def)
qed

lemma add_drives_outcome:
  "returns cb \<Longrightarrow> fst (add_drives cb ds seen (fm, s)) = Returned"
proof (induction ds arbitrary: seen fm s)
  case Nil
  then show ?case by simp
next
  case (Cons d ds)
  show ?case
  proof (cases cb)
    case None
    then show ?thesis using Cons by (simp add: Let_def)
  next
    case (Some f)
    have "fst (f d s) = Returned" using Cons.prems Some by (simp add: returns_def)
    then obtain s' where "f d s = (Returned, s')" by (cases "f d s") simp
    then show ?thesis using Some Cons by (simp add: Let_def)
  qed
qed

lemma detect_enum_raises:
  assumes "returns cb" and "find_drives os = (ys, Some e)"
  shows "fst (detect_new_drives cb os (fm, s)) = Raised e"
proof -
  obtain seen fm1 s1 where "add_drives cb ys [] (fm, s) = (Returned, seen, fm1, s1)"
    using add_drives_outcome [OF assms(1), of ys "[]" fm s]
    by (cases "add_drives cb ys [] (fm, s)") auto
  then show ?thesis using assms(2) by (simp add: detect_new_drives_def)
qed

lemma yield_dirs_skip:
  "chk d = Inr False \<Longrightarrow> yield_dirs chk (pre @ d # post) = yield_dirs chk (pre @ post)"
  by (induction pre) (auto split: sum.splits bool.splits)

lemma detect_returns:
  assumes "find_drives os = (ys, None)" and "distinct ys" and "returns cb"
  shows "detect_new_drives cb os (fm, s) =
     (Returned,
      remove_drives 0 ys
        (fm\<lparr>drives := drives fm @ new_drives fm ys,
            log := log fm @ concat (map (announce cb) (new_drives fm ys))\<rparr>),
      run_callbacks cb (new_drives fm ys) s)"
  using assms(1) add_drives_returns [OF assms(3) assms(2), of "[]" fm s]
  by (simp add: detect_new_drives_def new_drives_def)

lemma add_drives_not_returned:
  "add_drives (Some f) ds seen (fm, s) = (out, seen', fm', s') \<Longrightarrow> out \<noteq> Returned \<Longrightarrow>
   \<exists>d. d \<in> set ds \<and> d \<notin> set (drives fm) \<and> d \<in> set (drives fm')
       \<and> (\<exists>pre. log fm' = pre @ [New_drive d, Executing_callback d])
       \<and> (\<exists>s0. f d s0 = (out, s'))"
proof (induction ds arbitrary: seen fm s)
  case Nil
  then show ?case by simp
next
  case (Cons d ds)
  show ?case
  proof (cases "d \<in> set (drives fm)")
    case True
    then have "add_drives (Some f) ds (seen @ [d]) (fm, s) = (out, seen', fm', s')"
      using Cons.prems(1) by simp
    from Cons.IH [OF this Cons.prems(2)] show ?thesis by auto
  next
    case False
    let ?fm2 = "fm\<lparr>drives := drives fm @ [d],
                   log := log fm @ [New_drive d, Executing_callback d]\<rparr>"
    obtain o1 s1 where fd: "f d s = (o1, s1)" by (cases "f d s")
    show ?thesis
    proof (cases "o1 = Returned")
      case True
      then have "add_drives (Some f) ds (seen @ [d]) (?fm2, s1) = (out, seen', fm', s')"
        using Cons.prems(1) False fd by (simp add: Let_def)
      from Cons.IH [OF this Cons.prems(2)] show ?thesis by auto
    next
      case False
      then have "out = o1 \<and> fm' = ?fm2 \<and> s' = s1"
        using Cons.prems(1) \<open>d \<notin> set (drives fm)\<close> fd
        by (cases o1) (auto simp: Let_def)
      then show ?thesis using \<open>d \<notin> set (drives fm)\<close> fd by auto
    qed
  qed
qed

lemma add_drives_reports:
  "d \<in> set (drives fm) \<Longrightarrow> add_drives cb ds seen (fm, s) = (out, seen', fm', s') \<Longrightarrow>
   filter (\<lambda>ev. ev = New_drive d \<or> ev = Executing_callback d) (log fm') =
   filter (\<lambda>ev. ev = New_drive d \<or> ev = Executing_callback d) (log fm)"
proof (induction ds arbitrary: seen fm s)
  case Nil
  then show ?case by simp
next
  case (Cons x ds)
  show ?case
  proof (cases "x \<in> set (drives fm)")
    case True
    then have "add_drives cb ds (seen @ [x]) (fm, s) = (out, seen', fm', s')"
      using Cons.prems(2) by simp
    from Cons.IH [OF Cons.prems(1) this] show ?thesis .
  next
    case False
    then have ne: "x \<noteq> d" using Cons.prems(1) by auto
    let ?fm1 = "fm\<lparr>drives := drives fm @ [x], log := log fm @ [New_drive x]\<rparr>"
    let ?fm2 = "fm\<lparr>drives := drives fm @ [x],
                   log := log fm @ [New_drive x, Executing_callback x]\<rparr>"
    show ?thesis
    proof (cases cb)
      case None
      then have "add_drives cb ds (seen @ [x]) (?fm1, s) = (out, seen', fm', s')"
        using Cons.prems(2) False by (simp add: Let_def)
      from Cons.IH [OF _ this] Cons.prems(1) ne show ?thesis by simp
    next
      case (Some f)
      obtain o1 s1 where fd: "f x s = (o1, s1)" by (cases "f x s")
      show ?thesis
      proof (cases "o1 = Returned")
        case True
        then have "add_drives cb ds (seen @ [x]) (?fm2, s1) = (out, seen', fm', s')"
          using Cons.prems(2) False fd Some by (simp add: Let_def)
        from Cons.IH [OF _ this] Cons.prems(1) ne show ?thesis by simp
      next
        case nr: False
        then have "fm' = ?fm2"
          using Cons.prems(2) False fd Some by (cases o1) (auto simp: Let_def)
        then show ?thesis using ne by simp
      qed
    qed
  qed
qed

lemma detect_reports:
  assumes "d \<in> set (drives fm)"
  shows "filter (\<lambda>ev. ev = New_drive d \<or> ev = Executing_callback d)
           (log (fst (snd (detect_new_drives cb os (fm, s))))) =
         filter (\<lambda>ev. ev = New_drive d \<or> ev = Executing_callback d) (log fm)"
proof -
  obtain ys err where fd: "find_drives os = (ys, err)" by (cases "find_drives os")
  obtain out seen fm1 s1 where ad: "add_drives cb ys [] (fm, s) = (out, seen, fm1, s1)"
    by (cases "add_drives cb ys [] (fm, s)") auto
  have l1: "filter (\<lambda>ev. ev = New_drive d \<or> ev = Executing_callback d) (log fm1) =
            filter (\<lambda>ev. ev = New_drive d \<or> ev = Executing_callback d) (log fm)"
    using add_drives_reports [OF assms ad] .
  show ?thesis
    using fd ad l1 remove_drives_reports [of d 0 seen fm1]
    by (simp add: detect_new_drives_def split: outcome.splits option.splits)
qed

lemma yield_dirs_raises:
  "(\<forall>x \<in> set pre. \<exists>b. chk x = Inr b) \<Longrightarrow> chk d = Inl e \<Longrightarrow>
   snd (yield_dirs chk (pre @ d # post)) = Some e"
  by (induction pre) (auto split: sum.splits bool.splits prod.splits)

lemma add_drives_nothing_new:
  "\<forall>x \<in> set ys. x \<in> set (drives fm) \<Longrightarrow>
   add_drives cb ys seen (fm, s) = (Returned, seen @ ys, fm, s)"
  by (induction ys arbitrary: seen) auto

lemma add_drives_covers:
  "add_drives cb ds seen (fm, s) = (Returned, seen', fm', s') \<Longrightarrow>
   seen' = seen @ ds \<and> set ds \<subseteq> set (drives fm')"
proof (induction ds arbitrary: seen fm s)
  case Nil
  then show ?case by simp
next
  case (Cons d ds)
  show ?case
  proof (cases "d \<in> set (drives fm)")
    case True
    then have ad: "add_drives cb ds (seen @ [d]) (fm, s) = (Returned, seen', fm', s')"
      using Cons.prems by simp
    from Cons.IH [OF ad] add_drives_mono [OF ad] True show ?thesis by auto
  next
    case False
    let ?fm1 = "fm\<lparr>drives := drives fm @ [d], log := log fm @ [New_drive d]\<rparr>"
    let ?fm2 = "fm\<lparr>drives := drives fm @ [d],
                   log := log fm @ [New_drive d, Executing_callback d]\<rparr>"
    show ?thesis
    proof (cases cb)
      case None
      then have ad: "add_drives cb ds (seen @ [d]) (?fm1, s) = (Returned, seen', fm', s')"
        using Cons.prems False by (simp add: Let_def)
      from Cons.IH [OF ad] add_drives_mono [OF ad] show ?thesis by auto
    next
      case (Some f)
      obtain o1 s1 where fd: "f d s = (o1, s1)" by (cases "f d s")
      have "o1 = Returned"
        using Cons.prems False Some fd by (cases o1) (auto simp: Let_def)
      then have ad: "add_drives cb ds (seen @ [d]) (?fm2, s1) = (Returned, seen', fm', s')"
        using Cons.prems False Some fd by (simp add: Let_def)
      from Cons.IH [OF ad] add_drives_mono [OF ad] show ?thesis by auto
    qed
  qed
qed

lemma detect_tracks_present:
  assumes "find_drives os = (ys, None)"
    and "detect_new_drives cb os (fm, s) = (Returned, fm1, s1)"
  shows "set ys \<subseteq> set (drives fm1)"
proof -
  obtain out seen fm0 s0 where ad: "add_drives cb ys [] (fm, s) = (out, seen, fm0, s0)"
    by (cases "add_drives cb ys [] (fm, s)") auto
  have out: "out = Returned"
    using assms ad by (cases out) (auto simp: detect_new_drives_def)
  then have res: "fm1 = remove_drives 0 seen fm0"
    using assms ad by (simp add: detect_new_drives_def)
  have cov: "seen = ys" "set ys \<subseteq> set (drives fm0)"
    using add_drives_covers [of cb ys "[]" fm s seen fm0 s0] ad out by auto
  show ?thesis
  proof
    fix x assume "x \<in> set ys"
    then show "x \<in> set (drives fm1)"
      using cov res remove_drives_keeps [of x fm0 seen 0] by auto
  qed
qed

lemma repeated_poll_no_callback:
  assumes "find_drives os = (ys, None)"
    and "detect_new_drives cb os (fm, s) = (Returned, fm1, s1)"
  shows "detect_new_drives cb2 os (fm1, s2) = (Returned, remove_drives 0 ys fm1, s2)"
proof -
  have "\<forall>x \<in> set ys. x \<in> set (drives fm1)"
    using detect_tracks_present [OF assms] by auto
  then have "add_drives cb2 ys [] (fm1, s2) = (Returned, [] @ ys, fm1, s2)"
    by (rule add_drives_nothing_new)
  then show ?thesis using assms(1) by (simp add: detect_new_drives_def)
qed
lemma detect_distinct:
  assumes "distinct (drives fm)"
  shows "distinct (drives (fst (snd (detect_new_drives cb os (fm, s)))))"
proof -
  obtain ys err where fd: "find_drives os = (ys, err)" by (cases "find_drives os")
  obtain out seen fm1 s1 where ad: "add_drives cb ys [] (fm, s) = (out, seen, fm1, s1)"
    by (cases "add_drives cb ys [] (fm, s)") auto
  have d1: "distinct (drives fm1)" using add_drives_distinct [OF ad assms] .
  then have "distinct (drives (remove_drives 0 seen fm1))" by (rule remove_drives_distinct)
  with d1 show ?thesis
    using fd ad by (simp add: detect_new_drives_def split: outcome.splits option.splits)
qed

text \<open>
  Claim C6.  The tracked list never holds a drive twice: the list built by the constructor
  is duplicate-free when the operating system lists every drive once, and every call of
  \<^verbatim>\<open>detect_new_drives\<close> keeps a duplicate-free list duplicate-free, whatever the
  enumeration answers and whatever the callback does.
\<close>

theorem tracked_drives_distinct:
  "(listdrives os = Inr ds \<longrightarrow> distinct ds \<longrightarrow> init os = Inr fm0 \<longrightarrow> distinct (drives fm0)) \<and>
   (distinct (drives fm) \<longrightarrow>
      distinct (drives (fst (snd (detect_new_drives cb os' (fm, s))))))"
proof (intro conjI impI)
  assume l: "listdrives os = Inr ds" and d: "distinct ds" and i: "init os = Inr fm0"
  have "distinct (fst (find_drives os))" using find_drives_distinct [OF l d] .
  then show "distinct (drives fm0)"
    using i by (auto simp: init_def split: prod.splits option.splits)
next
  assume "distinct (drives fm)"
  then show "distinct (drives (fst (snd (detect_new_drives cb os' (fm, s)))))"
    by (rule detect_distinct)
qed

theorem tracked_drives_distinct_witness:
  "listdrives \<lparr>listdrives = Inr [''C:'', ''D:''], is_dir = (\<lambda>d. Inr True)\<rparr> = Inr [''C:'', ''D:'']
   \<and> distinct [''C:'', ''D:'']
   \<and> init \<lparr>listdrives = Inr [''C:'', ''D:''], is_dir = (\<lambda>d. Inr True)\<rparr>
       = Inr \<lparr>drives = [''C:'', ''D:''], run = True, log = [Initial_drives [''C:'', ''D:'']]\<rparr>
   \<and> distinct (drives \<lparr>drives = [''C:'', ''D:''], run = True, log = [Initial_drives [''C:'', ''D:'']]\<rparr>)
   \<and> distinct (drives (fst (snd (detect_new_drives None
         \<lparr>listdrives = Inr [''C:'', ''E:''], is_dir = (\<lambda>d. Inr True)\<rparr>
         (\<lparr>drives = [''C:'', ''D:''], run = True, log = [Initial_drives [''C:'', ''D:'']]\<rparr>, ())))))"
  using tracked_drives_distinct
    [of "\<lparr>listdrives = Inr [''C:'', ''D:''], is_dir = (\<lambda>d. Inr True)\<rparr>" "[''C:'', ''D:'']"
        "\<lparr>drives = [''C:'', ''D:''], run = True, log = [Initial_drives [''C:'', ''D:'']]\<rparr>"
        "\<lparr>drives = [''C:'', ''D:''], run = True, log = [Initial_drives [''C:'', ''D:'']]\<rparr>"
        None "\<lparr>listdrives = Inr [''C:'', ''E:''], is_dir = (\<lambda>d. Inr True)\<rparr>" "()"]
  by (simp add: init_def find_drives_def)

text \<open>
  Claim C5.  When the enumeration succeeds and the callback returns, one call of
  \<^verbatim>\<open>detect_new_drives\<close> appends every new drive and calls the callback on it, in the
  order of the enumeration, and only then runs the removal loop, on the list that holds
  the additions.  So when one tracked drive has gone and one new drive has come in the
  same poll, the new drive is reported and the old one is removed.
\<close>

theorem additions_before_removals:
  assumes "find_drives os = (ys, None)" and "distinct ys" and "returns cb"
  shows "detect_new_drives cb os (fm, s) =
           (Returned,
            remove_drives 0 ys
              (fm\<lparr>drives := drives fm @ new_drives fm ys,
                  log := log fm @ concat (map (announce cb) (new_drives fm ys))\<rparr>),
            run_callbacks cb (new_drives fm ys) s)
         \<and> (distinct (drives fm) \<and> a \<in> set (drives fm) \<and> a \<notin> set ys
              \<and> (\<forall>x \<in> set (drives fm). x \<noteq> a \<longrightarrow> x \<in> set ys) \<and> new_drives fm ys = [b]
            \<longrightarrow> detect_new_drives cb os (fm, s) =
                  (Returned,
                   fm\<lparr>drives := remove1 a (drives fm) @ [b],
                      log := log fm @ announce cb b @ [Drive_removed a]\<rparr>,
                   run_callbacks cb [b] s))"
proof (intro conjI impI)
  show first: "detect_new_drives cb os (fm, s) =
           (Returned,
            remove_drives 0 ys
              (fm\<lparr>drives := drives fm @ new_drives fm ys,
                  log := log fm @ concat (map (announce cb) (new_drives fm ys))\<rparr>),
            run_callbacks cb (new_drives fm ys) s)"
    using assms by (rule detect_returns)
  assume swap: "distinct (drives fm) \<and> a \<in> set (drives fm) \<and> a \<notin> set ys
              \<and> (\<forall>x \<in> set (drives fm). x \<noteq> a \<longrightarrow> x \<in> set ys) \<and> new_drives fm ys = [b]"
  let ?fm1 = "fm\<lparr>drives := drives fm @ [b], log := log fm @ announce cb b\<rparr>"
  have b: "b \<in> set ys" "b \<notin> set (drives fm)"
  proof -
    have "b \<in> set (new_drives fm ys)" using swap by simp
    then show "b \<in> set ys" "b \<notin> set (drives fm)" by (auto simp: new_drives_def)
  qed
  have "remove_drives 0 ys ?fm1 =
          ?fm1\<lparr>drives := remove1 a (drives ?fm1), log := log ?fm1 @ [Drive_removed a]\<rparr>"
  proof (rule remove_drives_one)
    show "distinct (drives ?fm1)" using swap b by simp
    show "\<forall>x \<in> set (drop 0 (drives ?fm1)). x \<notin> set ys \<longrightarrow> x = a" using swap b by auto
    show "a \<in> set (drop 0 (drives ?fm1))" using swap by simp
    show "a \<notin> set ys" using swap by simp
  qed
  moreover have "remove1 a (drives fm @ [b]) = remove1 a (drives fm) @ [b]"
    using swap by (simp add: remove1_append)
  ultimately show "detect_new_drives cb os (fm, s) =
                  (Returned,
                   fm\<lparr>drives := remove1 a (drives fm) @ [b],
                      log := log fm @ announce cb b @ [Drive_removed a]\<rparr>,
                   run_callbacks cb [b] s)"
    using first swap by simp
qed

theorem additions_before_removals_witness:
  "find_drives \<lparr>listdrives = Inr [''E:''], is_dir = (\<lambda>d. Inr True)\<rparr> = ([''E:''], None)
   \<and> distinct [''E:'']
   \<and> returns (Some (\<lambda>d s. (Returned, s @ [d])))
   \<and> new_drives \<lparr>drives = [''D:''], run = True, log = []\<rparr> [''E:''] = [''E:'']
   \<and> detect_new_drives (Some (\<lambda>d s. (Returned, s @ [d])))
        \<lparr>listdrives = Inr [''E:''], is_dir = (\<lambda>d. Inr True)\<rparr>
        (\<lparr>drives = [''D:''], run = True, log = []\<rparr>, []) =
      (Returned,
       \<lparr>drives = [''E:''], run = True,
          log = [New_drive ''E:'', Executing_callback ''E:'', Drive_removed ''D:'']\<rparr>,
       [''E:''])"
proof -
  have h1: "find_drives \<lparr>listdrives = Inr [''E:''], is_dir = (\<lambda>d. Inr True)\<rparr> = ([''E:''], None)"
    by (simp add: find_drives_def)
  have h2: "distinct [''E:'']" by simp
  have h3: "returns (Some (\<lambda>d s. (Returned, s @ [d])))" by (simp add: returns_def)
  show ?thesis
    using h1 h2 h3
      additions_before_removals
        [OF h1 h2 h3, of "\<lparr>drives = [''D:''], run = True, log = []\<rparr>" "[]" "''D:''" "''E:''",
         THEN conjunct2]
    by (simp add: new_drives_def announce_def run_callbacks_def)
qed

text \<open>
  Claim C10.  A new drive is appended to the tracked list before the callback is called on
  it.  So when the enumeration succeeds and a call of \<^verbatim>\<open>detect_new_drives\<close> ends with
  an exception, the exception was raised by the callback at a new drive \<open>d\<close>, the last
  two log lines report \<open>d\<close>, and \<open>d\<close> is in the tracked list the call leaves behind;
  no later call, whatever the enumeration and the callback, reports \<open>d\<close> as new again.
\<close>

theorem appended_before_callback:
  assumes "find_drives os = (ys, None)"
    and "detect_new_drives (Some f) os (fm, s) = (Raised e, fm', s')"
  shows "\<exists>d. d \<in> set ys \<and> d \<notin> set (drives fm)
            \<and> (\<exists>pre. log fm' = pre @ [New_drive d, Executing_callback d])
            \<and> (\<exists>s0. f d s0 = (Raised e, s'))
            \<and> d \<in> set (drives fm')
            \<and> (\<forall>cb2 os2 s2.
                  filter (\<lambda>ev. ev = New_drive d \<or> ev = Executing_callback d)
                    (log (fst (snd (detect_new_drives cb2 os2 (fm', s2))))) =
                  filter (\<lambda>ev. ev = New_drive d \<or> ev = Executing_callback d) (log fm'))"
proof -
  obtain out seen fm1 s1 where ad: "add_drives (Some f) ys [] (fm, s) = (out, seen, fm1, s1)"
    by (cases "add_drives (Some f) ys [] (fm, s)") auto
  have "out = Raised e \<and> fm1 = fm' \<and> s1 = s'"
    using assms ad by (cases out) (auto simp: detect_new_drives_def)
  then have ad': "add_drives (Some f) ys [] (fm, s) = (Raised e, seen, fm', s')"
    using ad by simp
  from add_drives_not_returned [OF ad'] obtain d where d:
    "d \<in> set ys" "d \<notin> set (drives fm)" "d \<in> set (drives fm')"
    "\<exists>pre. log fm' = pre @ [New_drive d, Executing_callback d]"
    "\<exists>s0. f d s0 = (Raised e, s')"
    by auto
  show ?thesis
    using d detect_reports [OF d(3)] by blast
qed

theorem appended_before_callback_witness:
  "find_drives \<lparr>listdrives = Inr [''C:'', ''E:''], is_dir = (\<lambda>d. Inr True)\<rparr> = ([''C:'', ''E:''], None)
   \<and> detect_new_drives (Some (\<lambda>d s. (Raised (Exception ''sync failed''), s)))
        \<lparr>listdrives = Inr [''C:'', ''E:''], is_dir = (\<lambda>d. Inr True)\<rparr>
        (\<lparr>drives = [''C:''], run = True, log = []\<rparr>, ()) =
      (Raised (Exception ''sync failed''),
       \<lparr>drives = [''C:'', ''E:''], run = True, log = [New_drive ''E:'', Executing_callback ''E:'']\<rparr>,
       ())
   \<and> (\<exists>d. d \<in> set [''C:'', ''E:''] \<and> d \<notin> set (drives \<lparr>drives = [''C:''], run = True, log = []\<rparr>)
         \<and> (\<exists>pre. log \<lparr>drives = [''C:'', ''E:''], run = True,
                         log = [New_drive ''E:'', Executing_callback ''E:'']\<rparr>
                    = pre @ [New_drive d, Executing_callback d])
         \<and> (\<exists>s0. (\<lambda>d s. (Raised (Exception ''sync failed''), s)) d s0
                    = (Raised (Exception ''sync failed''), ()))
         \<and> d \<in> set (drives \<lparr>drives = [''C:'', ''E:''], run = True,
                         log = [New_drive ''E:'', Executing_callback ''E:'']\<rparr>)
         \<and> (\<forall>cb2 os2 s2.
               filter (\<lambda>ev. ev = New_drive d \<or> ev = Executing_callback d)
                 (log (fst (snd (detect_new_drives cb2 os2
                    (\<lparr>drives = [''C:'', ''E:''], run = True,
                        log = [New_drive ''E:'', Executing_callback ''E:'']\<rparr>, s2 :: unit))))) =
               filter (\<lambda>ev. ev = New_drive d \<or> ev = Executing_callback d)
                 (log \<lparr>drives = [''C:'', ''E:''], run = True,
                        log = [New_drive ''E:'', Executing_callback ''E:'']\<rparr>)))"
proof -
  have h1: "find_drives \<lparr>listdrives = Inr [''C:'', ''E:''], is_dir = (\<lambda>d. Inr True)\<rparr>
              = ([''C:'', ''E:''], None)"
    by (simp add: find_drives_def)
  have h2: "detect_new_drives (Some (\<lambda>d s. (Raised (Exception ''sync failed''), s)))
        \<lparr>listdrives = Inr [''C:'', ''E:''], is_dir = (\<lambda>d. Inr True)\<rparr>
        (\<lparr>drives = [''C:''], run = True, log = []\<rparr>, ()) =
      (Raised (Exception ''sync failed''),
       \<lparr>drives = [''C:'', ''E:''], run = True, log = [New_drive ''E:'', Executing_callback ''E:'']\<rparr>,
       ())"
    by (simp add: detect_new_drives_def find_drives_def)
  show ?thesis
    by (intro conjI h1 h2 appended_before_callback [OF h1 h2])
qed

text \<open>
  Claim C2, as amended.  A failure of the enumeration is not absorbed.  When
  \<^verbatim>\<open>os.listdrives()\<close> raises, or \<^verbatim>\<open>is_dir()\<close> raises at a listed drive, the generator
  raises; then \<^verbatim>\<open>detect_new_drives\<close> raises the same exception and \<^verbatim>\<open>scan\<close> ends with
  it at that tick, whatever ticks would follow.  Only a drive whose \<^verbatim>\<open>is_dir()\<close> check
  returns false is treated as absent.
\<close>

theorem enumeration_failure_propagates:
  "(returns cb \<and> snd (find_drives (tick_os t)) = Some e \<and> \<not> stop_called t \<and> run fm \<longrightarrow>
      fst (detect_new_drives cb (tick_os t) (fm, s)) = Raised e \<and>
      fst (scan cb delay (t # ts) (fm, s)) = Some (Raised e))
   \<and> (listdrives os1 = Inl e1 \<longrightarrow> snd (find_drives os1) = Some e1)
   \<and> (listdrives os2 = Inr (pre2 @ d2 # post2) \<and> (\<forall>x \<in> set pre2. \<exists>b. is_dir os2 x = Inr b)
        \<and> is_dir os2 d2 = Inl e2 \<longrightarrow> snd (find_drives os2) = Some e2)
   \<and> (listdrives os3 = Inr (pre3 @ d3 # post3) \<and> is_dir os3 d3 = Inr False \<longrightarrow>
        find_drives os3 = find_drives (os3\<lparr>listdrives := Inr (pre3 @ post3)\<rparr>))"
proof (intro conjI impI)
  assume h: "returns cb \<and> snd (find_drives (tick_os t)) = Some e \<and> \<not> stop_called t \<and> run fm"
  then obtain ys where fd: "find_drives (tick_os t) = (ys, Some e)"
    by (cases "find_drives (tick_os t)") auto
  show d: "fst (detect_new_drives cb (tick_os t) (fm, s)) = Raised e"
    using h fd detect_enum_raises [of cb "tick_os t" ys e fm s] by simp
  then obtain fm1 s1 where "detect_new_drives cb (tick_os t) (fm, s) = (Raised e, fm1, s1)"
    by (cases "detect_new_drives cb (tick_os t) (fm, s)") auto
  then show "fst (scan cb delay (t # ts) (fm, s)) = Some (Raised e)"
    using h by simp
next
  assume "listdrives os1 = Inl e1"
  then show "snd (find_drives os1) = Some e1" by (simp add: find_drives_def)
next
  assume "listdrives os2 = Inr (pre2 @ d2 # post2) \<and> (\<forall>x \<in> set pre2. \<exists>b. is_dir os2 x = Inr b)
        \<and> is_dir os2 d2 = Inl e2"
  then show "snd (find_drives os2) = Some e2"
    by (simp add: find_drives_def yield_dirs_raises)
next
  assume "listdrives os3 = Inr (pre3 @ d3 # post3) \<and> is_dir os3 d3 = Inr False"
  then show "find_drives os3 = find_drives (os3\<lparr>listdrives := Inr (pre3 @ post3)\<rparr>)"
    by (simp add: find_drives_def yield_dirs_skip)
qed

theorem enumeration_failure_propagates_witness:
  "returns (None :: unit callback option)
   \<and> snd (find_drives (tick_os \<lparr>stop_called = False,
          tick_os = \<lparr>listdrives = Inl OSError, is_dir = (\<lambda>d. Inr True)\<rparr>\<rparr>)) = Some OSError
   \<and> \<not> stop_called \<lparr>stop_called = False,
          tick_os = \<lparr>listdrives = Inl OSError, is_dir = (\<lambda>d. Inr True)\<rparr>\<rparr>
   \<and> run \<lparr>drives = [''C:''], run = True, log = []\<rparr>
   \<and> fst (scan None 1
         [\<lparr>stop_called = False, tick_os = \<lparr>listdrives = Inl OSError, is_dir = (\<lambda>d. Inr True)\<rparr>\<rparr>,
          \<lparr>stop_called = False, tick_os = \<lparr>listdrives = Inr [''C:''], is_dir = (\<lambda>d. Inr True)\<rparr>\<rparr>]
         (\<lparr>drives = [''C:''], run = True, log = []\<rparr>, ())) = Some (Raised OSError)
   \<and> listdrives \<lparr>listdrives = Inl OSError, is_dir = (\<lambda>d. Inr True)\<rparr> = Inl OSError
   \<and> listdrives \<lparr>listdrives = Inr [''C:'', ''E:''],
         is_dir = (\<lambda>d. if d = ''E:'' then Inl OSError else Inr True)\<rparr> = Inr ([''C:''] @ ''E:'' # [])
   \<and> is_dir \<lparr>listdrives = Inr [''C:'', ''E:''],
         is_dir = (\<lambda>d. if d = ''E:'' then Inl OSError else Inr True)\<rparr> ''C:'' = Inr True
   \<and> is_dir \<lparr>listdrives = Inr [''C:'', ''E:''],
         is_dir = (\<lambda>d. if d = ''E:'' then Inl OSError else Inr True)\<rparr> ''E:'' = Inl OSError
   \<and> snd (find_drives \<lparr>listdrives = Inr [''C:'', ''E:''],
         is_dir = (\<lambda>d. if d = ''E:'' then Inl OSError else Inr True)\<rparr>) = Some OSError
   \<and> is_dir \<lparr>listdrives = Inr [''C:'', ''F:''], is_dir = (\<lambda>d. Inr (d \<noteq> ''F:''))\<rparr> ''F:'' = Inr False
   \<and> find_drives \<lparr>listdrives = Inr [''C:'', ''F:''], is_dir = (\<lambda>d. Inr (d \<noteq> ''F:''))\<rparr> =
       find_drives \<lparr>listdrives = Inr [''C:''], is_dir = (\<lambda>d. Inr (d \<noteq> ''F:''))\<rparr>"
  using enumeration_failure_propagates
    [of "None :: unit callback option"
        "\<lparr>stop_called = False, tick_os = \<lparr>listdrives = Inl OSError, is_dir = (\<lambda>d. Inr True)\<rparr>\<rparr>"
        OSError "\<lparr>drives = [''C:''], run = True, log = []\<rparr>" "()" 1
        "[\<lparr>stop_called = False, tick_os = \<lparr>listdrives = Inr [''C:''], is_dir = (\<lambda>d. Inr True)\<rparr>\<rparr>]"
        "\<lparr>listdrives = Inl OSError, is_dir = (\<lambda>d. Inr True)\<rparr>" OSError
        "\<lparr>listdrives = Inr [''C:'', ''E:''], is_dir = (\<lambda>d. if d = ''E:'' then Inl OSError else Inr True)\<rparr>"
        "[''C:'']" "''E:''" "[]" OSError
        "\<lparr>listdrives = Inr [''C:'', ''F:''], is_dir = (\<lambda>d. Inr (d \<noteq> ''F:''))\<rparr>"
        "[''C:'']" "''F:''" "[]"]
  by (auto simp: returns_def find_drives_def detect_new_drives_def)

theorem enumeration_failure_counterexample:
  "scan None 1
     [\<lparr>stop_called = False, tick_os = \<lparr>listdrives = Inl OSError, is_dir = (\<lambda>d. Inr True)\<rparr>\<rparr>,
      \<lparr>stop_called = False, tick_os = \<lparr>listdrives = Inr [''C:''], is_dir = (\<lambda>d. Inr True)\<rparr>\<rparr>]
     (\<lparr>drives = [''C:''], run = True, log = []\<rparr>, ()) =
   (Some (Raised OSError), \<lparr>drives = [''C:''], run = True, log = []\<rparr>, ())"
  by (simp add: detect_new_drives_def find_drives_def)

text \<open>
  Claim C1 fails on the code.  The tracker starts with the drives D: and E:.  In the next
  poll both are gone, but the removal loop removes only D:, because removing an element
  while iterating makes the iterator skip the element that follows; E: stays in the
  tracked list.  When E: is present again in the poll after that, it is not reported.
  (What does hold is \<open>detect_tracks_present\<close>: after a call that returns, every drive
  of the enumeration is tracked.)
\<close>

theorem stale_drive_after_two_removals:
  "init \<lparr>listdrives = Inr [''D:'', ''E:''], is_dir = (\<lambda>d. Inr True)\<rparr> =
     Inr \<lparr>drives = [''D:'', ''E:''], run = True, log = [Initial_drives [''D:'', ''E:'']]\<rparr>
   \<and> detect_new_drives (Some (\<lambda>d s. (Returned, s @ [d])))
        \<lparr>listdrives = Inr [], is_dir = (\<lambda>d. Inr True)\<rparr>
        (\<lparr>drives = [''D:'', ''E:''], run = True, log = [Initial_drives [''D:'', ''E:'']]\<rparr>, []) =
      (Returned,
       \<lparr>drives = [''E:''], run = True, log = [Initial_drives [''D:'', ''E:''], Drive_removed ''D:'']\<rparr>,
       [])
   \<and> detect_new_drives (Some (\<lambda>d s. (Returned, s @ [d])))
        \<lparr>listdrives = Inr [''E:''], is_dir = (\<lambda>d. Inr True)\<rparr>
        (\<lparr>drives = [''E:''], run = True,
            log = [Initial_drives [''D:'', ''E:''], Drive_removed ''D:'']\<rparr>, []) =
      (Returned,
       \<lparr>drives = [''E:''], run = True, log = [Initial_drives [''D:'', ''E:''], Drive_removed ''D:'']\<rparr>,
       [])"
  by (simp add: init_def detect_new_drives_def find_drives_def remove_drives.simps Let_def)

text \<open>
  Claim C7 fails on the code, by the same removal loop.  With D: and E: tracked and an
  empty enumeration, the first call leaves E: in the tracked list and the second call,
  with the same empty enumeration, removes it: the second call changes the tracked list.
  (The other half of the claim holds, by \<open>repeated_poll_no_callback\<close>: the second call
  adds no drive and calls no callback.)
\<close>

theorem second_call_changes_tracked_list:
  "detect_new_drives None \<lparr>listdrives = Inr [], is_dir = (\<lambda>d. Inr True)\<rparr>
     (\<lparr>drives = [''D:'', ''E:''], run = True, log = []\<rparr>, ()) =
     (Returned, \<lparr>drives = [''E:''], run = True, log = [Drive_removed ''D:'']\<rparr>, ())
   \<and> detect_new_drives None \<lparr>listdrives = Inr [], is_dir = (\<lambda>d. Inr True)\<rparr>
        (\<lparr>drives = [''E:''], run = True, log = [Drive_removed ''D:'']\<rparr>, ()) =
      (Returned, \<lparr>drives = [], run = True, log = [Drive_removed ''D:'', Drive_removed ''E:'']\<rparr>, ())"
  by (simp add: detect_new_drives_def find_drives_def remove_drives.simps Let_def)

section \<open>Properties of the application\<close>





lemma defaults_accepted:
  "interpolation_syntax_ok defaut_remote_path"
  "interpolation_syntax_ok default_icon_path"
  "interpolation_syntax_ok default_sync_interval_str"
  by (simp_all add: interpolation_syntax_ok_def defaut_remote_path_def default_icon_path_def
      default_sync_interval_str_def drop_key_references.simps)

lemma set_settings_accepted:
  assumes "interpolation_syntax_ok v"
  shows "fst (set_settings key v st) = Returned"
    and "config_get (config (snd (set_settings key v st))) k =
           (if k = key then Some v else config_get (config st) k)"
    and "ini_file (snd (set_settings key v st)) = Some (config (snd (set_settings key v st)))"
    and "trace (snd (set_settings key v st)) = trace st @ [Ini_written]"
  using assms
  by (simp_all add: set_settings_def write_ini_def config_get_def Let_def split: option.splits)

lemma set_settings_refused:
  assumes "\<not> interpolation_syntax_ok v"
  shows "fst (set_settings key v st) = Raised ValueError"
    and "ini_file (snd (set_settings key v st)) = ini_file st"
    and "trace (snd (set_settings key v st)) = trace st"
    and "config_get (config (snd (set_settings key v st))) k = config_get (config st) k"
  using assms
  by (simp_all add: set_settings_def config_get_def Let_def split: option.splits)

lemma remote_path_unset:
  assumes "config_get (config st) ''remote_path'' = None"
  shows "remote_path st = (Inr defaut_remote_path, snd (set_settings ''remote_path'' defaut_remote_path st))"
  using assms set_settings_accepted(1) [OF defaults_accepted(1), of "''remote_path''" st]
  by (cases "set_settings ''remote_path'' defaut_remote_path st") (simp add: remote_path_def)

lemma icon_path_unset:
  assumes "config_get (config st) ''icon_path'' = None"
  shows "icon_path st = (Inr default_icon_path, snd (set_settings ''icon_path'' default_icon_path st))"
  using assms set_settings_accepted(1) [OF defaults_accepted(2), of "''icon_path''" st]
  by (cases "set_settings ''icon_path'' default_icon_path st") (simp add: icon_path_def)

lemma sync_interval_unset:
  assumes "config_get (config st) ''sync_interval'' = None"
  shows "sync_interval env st =
           (Inr default_sync_interval,
            snd (set_settings ''sync_interval'' default_sync_interval_str st))"
  using assms set_settings_accepted(1) [OF defaults_accepted(3), of "''sync_interval''" st]
  by (cases "set_settings ''sync_interval'' default_sync_interval_str st")
     (simp add: sync_interval_def)

text \<open>
  Claim C4, as amended.  Reading \<^verbatim>\<open>remote_path\<close>, \<^verbatim>\<open>icon_path\<close> or \<^verbatim>\<open>sync_interval\<close>
  while it is unset returns its default (\<^verbatim>\<open>"DCIM"\<close>, \<^verbatim>\<open>"icon.png"\<close>, \<^verbatim>\<open>1.0\<close>), stores the
  default in the configuration and writes the INI file once; reading it again returns
  the same value and changes nothing, so nothing is written.  For \<^verbatim>\<open>sync_interval\<close> this
  takes that Python's \<^verbatim>\<open>float\<close> reads \<^verbatim>\<open>"1.0"\<close>, the string of the default, back as
  \<^verbatim>\<open>1.0\<close>.  Reading \<^verbatim>\<open>local_folder\<close> while it is unset returns no value; that getter has
  no state to change.
\<close>
theorem defaults_persisted_on_first_read:
  "(config_get (config st) ''remote_path'' = None \<longrightarrow>
      fst (remote_path st) = Inr ''DCIM''
      \<and> config_get (config (snd (remote_path st))) ''remote_path'' = Some ''DCIM''
      \<and> ini_file (snd (remote_path st)) = Some (config (snd (remote_path st)))
      \<and> trace (snd (remote_path st)) = trace st @ [Ini_written]
      \<and> remote_path (snd (remote_path st)) = (Inr ''DCIM'', snd (remote_path st)))
   \<and> (config_get (config st) ''icon_path'' = None \<longrightarrow>
      fst (icon_path st) = Inr ''icon.png''
      \<and> config_get (config (snd (icon_path st))) ''icon_path'' = Some ''icon.png''
      \<and> ini_file (snd (icon_path st)) = Some (config (snd (icon_path st)))
      \<and> trace (snd (icon_path st)) = trace st @ [Ini_written]
      \<and> icon_path (snd (icon_path st)) = (Inr ''icon.png'', snd (icon_path st)))
   \<and> (config_get (config st) ''sync_interval'' = None \<and> py_float env ''1.0'' = Some 1 \<longrightarrow>
      fst (sync_interval env st) = Inr 1
      \<and> config_get (config (snd (sync_interval env st))) ''sync_interval'' = Some ''1.0''
      \<and> ini_file (snd (sync_interval env st)) = Some (config (snd (sync_interval env st)))
      \<and> trace (snd (sync_interval env st)) = trace st @ [Ini_written]
      \<and> sync_interval env (snd (sync_interval env st)) = (Inr 1, snd (sync_interval env st)))
   \<and> (config_get (config st) ''local_folder'' = None \<longrightarrow> local_folder st = None)"
proof (intro conjI impI)
  assume u: "config_get (config st) ''remote_path'' = None"
  let ?st' = "snd (set_settings ''remote_path'' defaut_remote_path st)"
  have r: "remote_path st = (Inr defaut_remote_path, ?st')" using u by (rule remote_path_unset)
  note a = set_settings_accepted [OF defaults_accepted(1), of "''remote_path''" st]
  show "fst (remote_path st) = Inr ''DCIM''" using r by (simp add: defaut_remote_path_def)
  show "config_get (config (snd (remote_path st))) ''remote_path'' = Some ''DCIM''"
    using r a(2) [of "''remote_path''"] by (simp add: defaut_remote_path_def)
  show "ini_file (snd (remote_path st)) = Some (config (snd (remote_path st)))"
    using r a(3) by simp
  show "trace (snd (remote_path st)) = trace st @ [Ini_written]" using r a(4) by simp
  show "remote_path (snd (remote_path st)) = (Inr ''DCIM'', snd (remote_path st))"
    using r a(2) [of "''remote_path''"] by (simp add: remote_path_def defaut_remote_path_def)
next
  assume u: "config_get (config st) ''icon_path'' = None"
  let ?st' = "snd (set_settings ''icon_path'' default_icon_path st)"
  have r: "icon_path st = (Inr default_icon_path, ?st')" using u by (rule icon_path_unset)
  note a = set_settings_accepted [OF defaults_accepted(2), of "''icon_path''" st]
  show "fst (icon_path st) = Inr ''icon.png''" using r by (simp add: default_icon_path_def)
  show "config_get (config (snd (icon_path st))) ''icon_path'' = Some ''icon.png''"
    using r a(2) [of "''icon_path''"] by (simp add: default_icon_path_def)
  show "ini_file (snd (icon_path st)) = Some (config (snd (icon_path st)))"
    using r a(3) by simp
  show "trace (snd (icon_path st)) = trace st @ [Ini_written]" using r a(4) by simp
  show "icon_path (snd (icon_path st)) = (Inr ''icon.png'', snd (icon_path st))"
    using r a(2) [of "''icon_path''"] by (simp add: icon_path_def default_icon_path_def)
next
  assume h: "config_get (config st) ''sync_interval'' = None \<and> py_float env ''1.0'' = Some 1"
  let ?st' = "snd (set_settings ''sync_interval'' default_sync_interval_str st)"
  have r: "sync_interval env st = (Inr default_sync_interval, ?st')"
    using h by (intro sync_interval_unset) simp
  note a = set_settings_accepted [OF defaults_accepted(3), of "''sync_interval''" st]
  show "fst (sync_interval env st) = Inr 1" using r by (simp add: default_sync_interval_def)
  show "config_get (config (snd (sync_interval env st))) ''sync_interval'' = Some ''1.0''"
    using r a(2) [of "''sync_interval''"] by (simp add: default_sync_interval_str_def)
  show "ini_file (snd (sync_interval env st)) = Some (config (snd (sync_interval env st)))"
    using r a(3) by simp
  show "trace (snd (sync_interval env st)) = trace st @ [Ini_written]" using r a(4) by simp
  show "sync_interval env (snd (sync_interval env st)) = (Inr 1, snd (sync_interval env st))"
    using r h a(2) [of "''sync_interval''"]
    by (simp add: sync_interval_def default_sync_interval_str_def default_sync_interval_def)
next
  assume "config_get (config st) ''local_folder'' = None"
  then show "local_folder st = None" by (simp add: local_folder_def)
qed

theorem defaults_persisted_on_first_read_witness:
  "config_get (config fresh_app) ''remote_path'' = None
   \<and> fst (remote_path fresh_app) = Inr ''DCIM''
   \<and> ini_file (snd (remote_path fresh_app)) = Some (config (snd (remote_path fresh_app)))
   \<and> trace (snd (remote_path fresh_app)) = [Ini_written]
   \<and> remote_path (snd (remote_path fresh_app)) = (Inr ''DCIM'', snd (remote_path fresh_app))
   \<and> config_get (config fresh_app) ''icon_path'' = None
   \<and> fst (icon_path fresh_app) = Inr ''icon.png''
   \<and> icon_path (snd (icon_path fresh_app)) = (Inr ''icon.png'', snd (icon_path fresh_app))
   \<and> config_get (config fresh_app) ''sync_interval'' = None
   \<and> py_float example_env ''1.0'' = Some 1
   \<and> fst (sync_interval example_env fresh_app) = Inr 1
   \<and> sync_interval example_env (snd (sync_interval example_env fresh_app)) =
       (Inr 1, snd (sync_interval example_env fresh_app))
   \<and> config_get (config fresh_app) ''local_folder'' = None
   \<and> local_folder fresh_app = None"
proof -
  have h: "config_get (config fresh_app) ''remote_path'' = None"
    "config_get (config fresh_app) ''icon_path'' = None"
    "config_get (config fresh_app) ''sync_interval'' = None"
    "py_float example_env ''1.0'' = Some 1"
    "config_get (config fresh_app) ''local_folder'' = None"
    "trace fresh_app = []"
    by (simp_all add: fresh_app_def example_env_def read_ini_def config_get_def)
  show ?thesis
    using defaults_persisted_on_first_read [of fresh_app example_env] h by simp
qed

theorem local_folder_counterexample:
  "config_get (config fresh_app) ''local_folder'' = None
   \<and> local_folder fresh_app = None
   \<and> ini_file fresh_app = None"
  by (simp add: local_folder_def fresh_app_def read_ini_def config_get_def)

text \<open>
  A folder name with a \<^verbatim>\<open>%\<close> that is not part of an escape is refused by
  \<open>set_settings\<close>, and nothing is written.
\<close>

lemma set_settings_percent:
  "set_settings ''local_folder'' ''C:/100%'' fresh_app =
     (Raised ValueError, fresh_app\<lparr>config := [''Settings'' \<mapsto> Map.empty]\<rparr>)"
  by (simp add: set_settings_def interpolation_syntax_ok_def drop_key_references.simps
      fresh_app_def read_ini_def)



lemma ui_cancel:
  "folder_answers st = a # rest \<Longrightarrow> a = None \<or> a = Some [] \<Longrightarrow>
   ui_sync_drive env drive delay depth st =
     (Returned,
      st\<lparr>trace := trace st @ [Slept (settle delay), Folder_prompt (local_folder st)],
         folder_answers := rest\<rparr>)"
  by (subst ui_sync_drive.simps) (auto simp: Let_def settle_def)









lemma add_drives_single:
  assumes "distinct ys" and "filter (\<lambda>x. x \<notin> set (drives fm)) ys = [d]"
    and "f d s = (Returned, s')"
  shows "add_drives (Some f) ys seen (fm, s) =
           (Returned, seen @ ys,
            fm\<lparr>drives := drives fm @ [d], log := log fm @ [New_drive d, Executing_callback d]\<rparr>,
            s')"
  using assms(1,2)
proof (induction ys arbitrary: seen)
  case Nil
  then show ?case by simp
next
  case (Cons y ys)
  show ?case
  proof (cases "y \<in> set (drives fm)")
    case True
    then show ?thesis using Cons by simp
  next
    case False
    then have y: "y = d" and none: "filter (\<lambda>x. x \<notin> set (drives fm)) ys = []"
      using Cons.prems(2) by auto
    let ?fm2 = "fm\<lparr>drives := drives fm @ [d], log := log fm @ [New_drive d, Executing_callback d]\<rparr>"
    have "\<forall>x \<in> set ys. x \<in> set (drives ?fm2)"
      using none by (auto simp: filter_empty_conv)
    then have "add_drives (Some f) ys (seen @ [d]) (?fm2, s') = (Returned, (seen @ [d]) @ ys, ?fm2, s')"
      by (rule add_drives_nothing_new)
    then show ?thesis using False y assms(3) by (simp add: Let_def)
  qed
qed

text \<open>
  Claim C9.  When a poll finds exactly one new drive and the user cancels the folder
  prompt (no folder, or an empty one), \<^verbatim>\<open>detect_new_drives\<close> with \<^verbatim>\<open>ui_sync_drive\<close> as its
  callback returns normally; the handler, for any drive, delay and nesting depth, has
  slept and prompted and nothing else: its configuration, INI file and file system are
  unchanged and no error popup and no synchronisation is in its trace.  The drive is in
  the tracked list afterwards, and no later poll reports it as new.
\<close>

theorem cancel_is_silent:
  assumes "find_drives os = (ys, None)" and "distinct ys" and "new_drives fm ys = [d]"
    and "folder_answers st = a # rest" and "a = None \<or> a = Some []"
  shows "detect_new_drives (Some (\<lambda>d. ui_sync_drive env d None 0)) os (fm, st) =
           (Returned,
            remove_drives 0 ys
              (fm\<lparr>drives := drives fm @ [d],
                  log := log fm @ [New_drive d, Executing_callback d]\<rparr>),
            st\<lparr>trace := trace st @ [Slept sleep_before_sync, Folder_prompt (local_folder st)],
               folder_answers := rest\<rparr>)
         \<and> (\<forall>drive delay depth.
               ui_sync_drive env drive delay depth st =
                 (Returned,
                  st\<lparr>trace := trace st @ [Slept (settle delay), Folder_prompt (local_folder st)],
                     folder_answers := rest\<rparr>))
         \<and> d \<in> set (drives (fst (snd
               (detect_new_drives (Some (\<lambda>d. ui_sync_drive env d None 0)) os (fm, st)))))
         \<and> (\<forall>cb2 os2 s2.
               filter (\<lambda>ev. ev = New_drive d \<or> ev = Executing_callback d)
                 (log (fst (snd (detect_new_drives cb2 os2
                    (fst (snd (detect_new_drives (Some (\<lambda>d. ui_sync_drive env d None 0)) os (fm, st))),
                     s2))))) =
               filter (\<lambda>ev. ev = New_drive d \<or> ev = Executing_callback d)
                 (log (fst (snd
                    (detect_new_drives (Some (\<lambda>d. ui_sync_drive env d None 0)) os (fm, st))))))"
proof -
  let ?st' = "st\<lparr>trace := trace st @ [Slept sleep_before_sync, Folder_prompt (local_folder st)],
               folder_answers := rest\<rparr>"
  let ?fm1 = "fm\<lparr>drives := drives fm @ [d], log := log fm @ [New_drive d, Executing_callback d]\<rparr>"
  have cb: "ui_sync_drive env d None 0 st = (Returned, ?st')"
    using ui_cancel [OF assms(4,5), of env d None 0] by (simp add: settle_def)
  have flt: "filter (\<lambda>x. x \<notin> set (drives fm)) ys = [d]"
    using assms(3) by (simp add: new_drives_def)
  have ad: "add_drives (Some (\<lambda>d. ui_sync_drive env d None 0)) ys [] (fm, st) =
              (Returned, [] @ ys, ?fm1, ?st')"
    using add_drives_single [OF assms(2) flt, of "\<lambda>d. ui_sync_drive env d None 0" st ?st' "[]"] cb
    by simp
  have res: "detect_new_drives (Some (\<lambda>d. ui_sync_drive env d None 0)) os (fm, st) =
           (Returned, remove_drives 0 ys ?fm1, ?st')"
    using assms(1) ad by (simp add: detect_new_drives_def)
  have "d \<in> set (filter (\<lambda>x. x \<notin> set (drives fm)) ys)" using flt by simp
  then have "d \<in> set ys" by simp
  then have tracked: "d \<in> set (drives (remove_drives 0 ys ?fm1))"
    by (intro remove_drives_keeps) simp_all
  show ?thesis
    unfolding res fst_conv snd_conv
    by (intro conjI allI refl tracked detect_reports [OF tracked] ui_cancel [OF assms(4,5)])
qed

theorem cancel_is_silent_witness:
  "find_drives \<lparr>listdrives = Inr [''C:'', ''E:''], is_dir = (\<lambda>d. Inr True)\<rparr> = ([''C:'', ''E:''], None)
   \<and> distinct [''C:'', ''E:'']
   \<and> new_drives \<lparr>drives = [''C:''], run = True, log = []\<rparr> [''C:'', ''E:''] = [''E:'']
   \<and> folder_answers (fresh_app\<lparr>folder_answers := [None]\<rparr>) = None # []
   \<and> detect_new_drives (Some (\<lambda>d. ui_sync_drive example_env d None 0))
        \<lparr>listdrives = Inr [''C:'', ''E:''], is_dir = (\<lambda>d. Inr True)\<rparr>
        (\<lparr>drives = [''C:''], run = True, log = []\<rparr>, fresh_app\<lparr>folder_answers := [None]\<rparr>) =
      (Returned,
       \<lparr>drives = [''C:'', ''E:''], run = True, log = [New_drive ''E:'', Executing_callback ''E:'']\<rparr>,
       fresh_app\<lparr>trace := [Slept 2, Folder_prompt None], folder_answers := []\<rparr>)"
proof -
  let ?os = "\<lparr>listdrives = Inr [''C:'', ''E:''], is_dir = (\<lambda>d. Inr True)\<rparr>"
  let ?fm = "\<lparr>drives = [''C:''], run = True, log = []\<rparr>"
  let ?st = "fresh_app\<lparr>folder_answers := [None]\<rparr>"
  have h1: "find_drives ?os = ([''C:'', ''E:''], None)" by (simp add: find_drives_def)
  have h2: "distinct [''C:'', ''E:'']" by simp
  have h3: "new_drives ?fm [''C:'', ''E:''] = [''E:'']" by (simp add: new_drives_def)
  have h4: "folder_answers ?st = None # []" by simp
  have h5: "(None :: string option) = None \<or> None = Some []" by simp
  have lf: "local_folder ?st = None" "trace fresh_app = []"
    by (simp_all add: local_folder_def fresh_app_def read_ini_def config_get_def)
  have rm: "remove_drives 0 [''C:'', ''E:'']
              \<lparr>drives = [''C:'', ''E:''], run = True, log = [New_drive ''E:'', Executing_callback ''E:'']\<rparr>
            = \<lparr>drives = [''C:'', ''E:''], run = True, log = [New_drive ''E:'', Executing_callback ''E:'']\<rparr>"
    by (simp add: remove_drives_none)
  show ?thesis
    using cancel_is_silent [OF h1 h2 h3 h4 h5, of example_env, THEN conjunct1] h1 h2 h3 lf rm
    by (simp add: sleep_before_sync_def)
qed

end
